theory Spec2Isabelle
  imports Main "HOL-Library.Word" "HOL-Library.Sublist"
begin

section \<open>Values shared by the sink and the source\<close>

text \<open>
  The Go package \<^verbatim>\<open>kafka\<close> (file \<^verbatim>\<open>kafka/kafka.go\<close>) adapts a Kafka client to
  the \<^verbatim>\<open>substrate\<close> interfaces.  A \<^verbatim>\<open>substrate.Message\<close> is an interface value.
  Two interface values are equal when they hold the same dynamic type and the same
  value, and for a pointer that is the address.  The model keeps exactly what the
  comparison can see: the nil interface, a pointer to a \<^verbatim>\<open>consumerMessage\<close>
  (the address), or a value of some type of the caller (an identity).
\<close>

type_synonym bytes = "8 word list"

datatype message =
    NilMessage
  | ConsumerMessageRef nat
  | CallerMessage nat

text \<open>
  Errors: \<^verbatim>\<open>substrate.InvalidAckError{Acked, Expected}\<close>, and the errors that the
  broker client hands over, which this package only passes on.
\<close>

datatype error =
    InvalidAckError (Acked: message) (Expected: message)
  | ClientError string

section \<open>The source: ConsumeMessages\<close>

text \<open>
  \<^verbatim>\<open>sarama.ConsumerMessage\<close>, the fields the broker fills in; and the package's
  \<^verbatim>\<open>consumerMessage\<close>, which wraps a pointer to one.  The broker's message is
  never written to after it arrives, so the pointer is modelled by the value; the
  channel \<^verbatim>\<open>c.Messages()\<close> is open while the loop runs (only \<^verbatim>\<open>c.Close()\<close> closes
  it, and the loop calls that when it returns), so the pointer is not nil.
\<close>

record sarama_ConsumerMessage =
  cmsg_Key :: bytes
  cmsg_Value :: bytes
  cmsg_Topic :: string
  cmsg_Partition :: "32 word"
  cmsg_Offset :: "64 word"

record consumerMessage =
  cm :: sarama_ConsumerMessage

definition Data :: "consumerMessage \<Rightarrow> bytes" where
  "Data m = cmsg_Value (cm m)"

text \<open>
  Where the loop of \<^verbatim>\<open>ConsumeMessages\<close> stands: blocked in the outer
  \<^verbatim>\<open>select\<close>; blocked in the inner \<^verbatim>\<open>select\<close>, which offers the freshly
  allocated message (at the given address) on the \<^verbatim>\<open>messages\<close> channel; or returned,
  with the error value it returned (\<open>None\<close> is Go's nil).
\<close>

datatype control =
    AtSelect
  | AtSend nat
  | Returned "error option"

text \<open>
  The state of one call.  \<open>forAcking\<close> is the slice of pointers of the source, and
  \<open>heap\<close> holds the \<^verbatim>\<open>consumerMessage\<close> structs that the loop allocated
  (\<open>allocs\<close> is the next free address).  The last three fields record what the call
  has done to its surroundings, in order: the values sent on \<^verbatim>\<open>messages\<close>, the
  arguments of the calls \<^verbatim>\<open>c.MarkOffset(msg, metadata)\<close>, and the number of
  calls \<^verbatim>\<open>c.Close()\<close>.
\<close>

record consumer_state =
  forAcking :: "nat list"
  heap :: "nat \<rightharpoonup> consumerMessage"
  allocs :: nat
  control :: control
  sent :: "message list"
  marked :: "(sarama_ConsumerMessage \<times> string) list"
  closes :: nat

text \<open>
  One event is one communication that a \<^verbatim>\<open>select\<close> of the loop completes.
  The two cancellation events carry what \<^verbatim>\<open>c.Close()\<close> returns when the loop calls
  it, and \<open>BrokerError\<close> carries the value read from \<^verbatim>\<open>c.Errors()\<close>; both are
  decided by the broker client.
\<close>

datatype event =
    BrokerMessage sarama_ConsumerMessage
  | SendDone
  | SendCtxDone "error option"
  | Ack message
  | BrokerError "error option"
  | CtxDone "error option"

definition MarkOffset :: "sarama_ConsumerMessage \<Rightarrow> string \<Rightarrow> consumer_state \<Rightarrow> consumer_state" where
  "MarkOffset msg metadata s = s\<lparr>marked := marked s @ [(msg, metadata)]\<rparr>"

definition Close :: "consumer_state \<Rightarrow> consumer_state" where
  "Close s = s\<lparr>closes := closes s + 1\<rparr>"

text \<open>
  A \<^verbatim>\<open>return\<close> inside the loop: the result is fixed, then the deferred function
  runs, which calls \<^verbatim>\<open>c.Close()\<close> and drops its result.
\<close>

definition return_deferred :: "error option \<Rightarrow> consumer_state \<Rightarrow> consumer_state" where
  "return_deferred r s = Close (s\<lparr>control := Returned r\<rparr>)"

text \<open>
  The body of the \<^verbatim>\<open>for\<close> loop, one completed communication at a time.  \<open>None\<close>
  says that the loop is not waiting for this event where it stands.  In the branch
  that accepts an acknowledgment the source reads \<^verbatim>\<open>forAcking[0].cm\<close>; a pointer of
  the ledger that the heap does not hold cannot arise in Go, and the model has no
  step there.
\<close>

fun ConsumeMessages_step :: "consumer_state \<Rightarrow> event \<Rightarrow> consumer_state option" where
  "ConsumeMessages_step s ev =
    (case control s of
       AtSelect \<Rightarrow>
         (case ev of
            BrokerMessage msg \<Rightarrow>
              Some (s\<lparr>heap := (heap s)(allocs s \<mapsto> \<lparr>cm = msg\<rparr>),
                      allocs := allocs s + 1,
                      control := AtSend (allocs s)\<rparr>)
          | Ack ack \<Rightarrow>
              (case forAcking s of
                 [] \<Rightarrow>
                   Some (return_deferred (Some (InvalidAckError ack NilMessage)) s)
               | h # rest \<Rightarrow>
                   if ack \<noteq> ConsumerMessageRef h
                   then Some (return_deferred
                                (Some (InvalidAckError ack (ConsumerMessageRef h))) s)
                   else (case heap s h of
                           None \<Rightarrow> None
                         | Some m \<Rightarrow>
                             Some ((MarkOffset (cm m) '''' s)\<lparr>forAcking := rest\<rparr>)))
          | BrokerError err \<Rightarrow> Some (return_deferred err s)
          | CtxDone r \<Rightarrow> Some (return_deferred r (Close s))
          | _ \<Rightarrow> None)
     | AtSend a \<Rightarrow>
         (case ev of
            SendCtxDone r \<Rightarrow> Some (return_deferred r (Close s))
          | SendDone \<Rightarrow>
              Some (s\<lparr>sent := sent s @ [ConsumerMessageRef a],
                      forAcking := forAcking s @ [a],
                      control := AtSelect\<rparr>)
          | _ \<Rightarrow> None)
     | Returned r \<Rightarrow> None)"

text \<open>
  The start of \<^verbatim>\<open>ConsumeMessages\<close>: \<^verbatim>\<open>cluster.NewConsumerFromClient\<close> either
  fails, and the call returns that error before anything is deferred, or the loop is
  entered with an empty ledger.
\<close>

definition ConsumeMessages_init :: "error option \<Rightarrow> consumer_state" where
  "ConsumeMessages_init err =
     \<lparr>forAcking = [], heap = Map.empty, allocs = 0,
      control = (case err of None \<Rightarrow> AtSelect | Some e \<Rightarrow> Returned (Some e)),
      sent = [], marked = [], closes = 0\<rparr>"

fun ConsumeMessages_run :: "consumer_state \<Rightarrow> event list \<Rightarrow> consumer_state option" where
  "ConsumeMessages_run s [] = Some s"
| "ConsumeMessages_run s (ev # evs) =
     (case ConsumeMessages_step s ev of
        None \<Rightarrow> None
      | Some s' \<Rightarrow> ConsumeMessages_run s' evs)"

text \<open>What a run read from the channels: the acknowledgments and the broker's messages.\<close>

fun acks_of :: "event list \<Rightarrow> message list" where
  "acks_of [] = []"
| "acks_of (Ack a # evs) = a # acks_of evs"
| "acks_of (_ # evs) = acks_of evs"

fun broker_messages :: "event list \<Rightarrow> sarama_ConsumerMessage list" where
  "broker_messages [] = []"
| "broker_messages (BrokerMessage m # evs) = m # broker_messages evs"
| "broker_messages (_ # evs) = broker_messages evs"

text \<open>The call returned \<^verbatim>\<open>substrate.InvalidAckError\<close>.\<close>

fun rejected :: "control \<Rightarrow> bool" where
  "rejected (Returned (Some (InvalidAckError a e))) = True"
| "rejected _ = False"



text \<open>
  The offsets of the messages of one topic and partition, in the order of the list.
  An offset is an \<^verbatim>\<open>int64\<close> and is read as a signed number.
\<close>

definition partition_offsets ::
  "string \<Rightarrow> 32 word \<Rightarrow> sarama_ConsumerMessage list \<Rightarrow> int list" where
  "partition_offsets t p ms =
     map (\<lambda>m. sint (cmsg_Offset m))
       (filter (\<lambda>m. cmsg_Topic m = t \<and> cmsg_Partition m = p) ms)"

text \<open>
  What holds of every state of a call that started with an empty heap, after the events
  \<open>evs\<close>: the \<open>i\<close>-th message of the broker lives at address \<open>i\<close>, the values sent
  are the addresses below \<open>length (sent s)\<close> in order, the ledger is the interval of
  addresses sent and not yet committed, the commits are the first broker messages in
  order, and unless an acknowledgment was refused the acknowledgments read so far are
  the committed addresses.
\<close>

definition session_inv :: "event list \<Rightarrow> consumer_state \<Rightarrow> bool" where
  "session_inv evs s \<longleftrightarrow>
     allocs s = length (broker_messages evs) \<and>
     (\<forall>i < allocs s. heap s i = Some \<lparr>cm = broker_messages evs ! i\<rparr>) \<and>
     sent s = map ConsumerMessageRef [0 ..< length (sent s)] \<and>
     forAcking s = [length (marked s) ..< length (sent s)] \<and>
     length (marked s) \<le> length (sent s) \<and>
     marked s = map (\<lambda>m. (m, '''')) (take (length (marked s)) (broker_messages evs)) \<and>
     (case control s of
        AtSelect \<Rightarrow> allocs s = length (sent s)
      | AtSend a \<Rightarrow> a = length (sent s) \<and> allocs s = a + 1
      | Returned r \<Rightarrow> length (sent s) \<le> allocs s) \<and>
     (\<not> rejected (control s) \<longrightarrow>
        acks_of evs = map ConsumerMessageRef [0 ..< length (marked s)])"

section \<open>The source: configuration\<close>

text \<open>
  \<^verbatim>\<open>time.Duration\<close> and the offsets are \<^verbatim>\<open>int64\<close>; a duration counts nanoseconds.
  A Kafka version is passed on untouched, so any representation will do.
\<close>

type_synonym KafkaVersion = "nat list"

definition Second :: "64 word" where
  "Second = 1000000000"

definition Minute :: "64 word" where
  "Minute = 60 * Second"

definition OffsetOldest :: "64 word" where
  "OffsetOldest = - 2"

definition OffsetNewest :: "64 word" where
  "OffsetNewest = - 1"

definition defaultMetadataRefreshFrequency :: "64 word" where
  "defaultMetadataRefreshFrequency = 10 * Minute"

record AsyncMessageSourceConfig =
  srccfg_ConsumerGroup :: string
  srccfg_Topic :: string
  srccfg_Brokers :: "string list"
  srccfg_Offset :: "64 word"
  srccfg_MetadataRefreshFrequency :: "64 word"
  srccfg_OffsetsRetention :: "64 word"
  srccfg_Version :: "KafkaVersion option"

text \<open>The fields of \<^verbatim>\<open>cluster.Config\<close> that the package sets.\<close>

record cluster_Config =
  Consumer_Return_Errors :: bool
  Consumer_Offsets_Initial :: "64 word"
  Consumer_Offsets_Retention :: "64 word"
  Metadata_RefreshFrequency :: "64 word"
  cluster_Version :: KafkaVersion

text \<open>
  \<^verbatim>\<open>buildSaramaConsumerConfig\<close>.  The first argument is what \<^verbatim>\<open>cluster.NewConfig()\<close>
  returns; the library is not part of the package.
\<close>

definition buildSaramaConsumerConfig ::
  "cluster_Config \<Rightarrow> AsyncMessageSourceConfig \<Rightarrow> cluster_Config" where
  "buildSaramaConsumerConfig NewConfig ams =
     (let offset = OffsetNewest;
          offset = (if srccfg_Offset ams \<noteq> 0 then srccfg_Offset ams else offset);
          mrf = defaultMetadataRefreshFrequency;
          mrf = (if 0 <s srccfg_MetadataRefreshFrequency ams
                 then srccfg_MetadataRefreshFrequency ams else mrf);
          config = NewConfig;
          config = config\<lparr>Consumer_Return_Errors := True\<rparr>;
          config = config\<lparr>Consumer_Offsets_Initial := offset\<rparr>;
          config = config\<lparr>Metadata_RefreshFrequency := mrf\<rparr>;
          config = config\<lparr>Consumer_Offsets_Retention := srccfg_OffsetsRetention ams\<rparr>;
          config = (case srccfg_Version ams of
                      Some v \<Rightarrow> config\<lparr>cluster_Version := v\<rparr>
                    | None \<Rightarrow> config)
      in config)"

section \<open>The sink: configuration\<close>

datatype PartitionerConstructor =
    NewHashPartitioner
  | NewRoundRobinPartitioner
  | OtherPartitioner nat

datatype RequiredAcks = NoResponse | WaitForLocal | WaitForAll

text \<open>The fields of \<^verbatim>\<open>sarama.Config\<close> that the package sets.\<close>

record sarama_Config =
  Producer_RequiredAcks :: RequiredAcks
  Producer_Return_Successes :: bool
  Producer_Return_Errors :: bool
  Producer_Retry_Max :: "64 word"
  Producer_Timeout :: "64 word"
  Producer_MaxMessageBytes :: "64 word"
  Producer_Partitioner :: PartitionerConstructor
  Config_Version :: KafkaVersion

text \<open>
  \<^verbatim>\<open>KeyFunc\<close> is a function value or nil.  It takes a message and returns a byte
  slice.
\<close>

record AsyncMessageSinkConfig =
  sinkcfg_Brokers :: "string list"
  sinkcfg_Topic :: string
  sinkcfg_MaxMessageBytes :: "64 word"
  sinkcfg_KeyFunc :: "(message \<Rightarrow> bytes) option"
  sinkcfg_Version :: "KafkaVersion option"

text \<open>The sink.  Its client belongs to the library; the type is left open.\<close>

record 'c AsyncMessageSink =
  sink_client :: 'c
  sink_Topic :: string
  sink_KeyFunc :: "(message \<Rightarrow> bytes) option"

text \<open>
  \<^verbatim>\<open>buildSaramaProducerConfig\<close>.  The arguments are what \<^verbatim>\<open>sarama.NewConfig()\<close>
  returns and the value of the package variable \<^verbatim>\<open>sarama.MaxRequestSize\<close>, an
  \<^verbatim>\<open>int32\<close> that the function may overwrite; the new value is the second result.
  \<^verbatim>\<open>int\<close> has 64 bits, the comparison is signed, and \<^verbatim>\<open>int32(...)\<close> keeps the low
  32 bits.
\<close>

definition buildSaramaProducerConfig ::
  "sarama_Config \<Rightarrow> 32 word \<Rightarrow> AsyncMessageSinkConfig \<Rightarrow> sarama_Config \<times> 32 word" where
  "buildSaramaProducerConfig NewConfig MaxRequestSize ams =
     (let conf = NewConfig\<lparr>Producer_RequiredAcks := WaitForAll,
                          Producer_Return_Successes := True,
                          Producer_Return_Errors := True,
                          Producer_Retry_Max := 3,
                          Producer_Timeout := 60 * Second\<rparr>;
          MaxRequestSize' =
            (if sinkcfg_MaxMessageBytes ams \<noteq> 0 \<and>
                scast MaxRequestSize <s sinkcfg_MaxMessageBytes ams
             then ucast (sinkcfg_MaxMessageBytes ams) else MaxRequestSize);
          conf = (if sinkcfg_MaxMessageBytes ams \<noteq> 0
                  then conf\<lparr>Producer_MaxMessageBytes := sinkcfg_MaxMessageBytes ams\<rparr>
                  else conf);
          conf = (case sinkcfg_KeyFunc ams of
                    Some f \<Rightarrow> conf\<lparr>Producer_Partitioner := NewHashPartitioner\<rparr>
                  | None \<Rightarrow> conf\<lparr>Producer_Partitioner := NewRoundRobinPartitioner\<rparr>);
          conf = (case sinkcfg_Version ams of
                    Some v \<Rightarrow> conf\<lparr>Config_Version := v\<rparr>
                  | None \<Rightarrow> conf)
      in (conf, MaxRequestSize'))"

text \<open>
  \<^verbatim>\<open>NewAsyncMessageSink\<close>.  \<^verbatim>\<open>sarama.NewClient\<close> is the third argument: it returns
  an error or a client.
\<close>

definition NewAsyncMessageSink ::
  "sarama_Config \<Rightarrow> 32 word \<Rightarrow> (string list \<Rightarrow> sarama_Config \<Rightarrow> error + 'c) \<Rightarrow>
   AsyncMessageSinkConfig \<Rightarrow> (error + 'c AsyncMessageSink) \<times> 32 word" where
  "NewAsyncMessageSink NewConfig MaxRequestSize NewClient config =
     (let (conf, MaxRequestSize') = buildSaramaProducerConfig NewConfig MaxRequestSize config
      in (case NewClient (sinkcfg_Brokers config) conf of
            Inl err \<Rightarrow> Inl err
          | Inr client \<Rightarrow>
              Inr \<lparr>sink_client = client, sink_Topic = sinkcfg_Topic config,
                   sink_KeyFunc = sinkcfg_KeyFunc config\<rparr>,
          MaxRequestSize'))"

section \<open>The sink: PublishMessages\<close>

text \<open>
  \<^verbatim>\<open>sarama.ProducerMessage\<close>: the fields the package fills in.  \<open>pmsg_Key\<close> and
  \<open>pmsg_Value\<close> are \<^verbatim>\<open>sarama.Encoder\<close> values, nil or a \<^verbatim>\<open>ByteEncoder\<close>;
  \<open>pmsg_Metadata\<close> is what the producer hands back with a success.
\<close>

record sarama_ProducerMessage =
  pmsg_Topic :: string
  pmsg_Key :: "bytes option"
  pmsg_Value :: "bytes option"
  pmsg_Metadata :: message

text \<open>
  The request that \<^verbatim>\<open>doPublishMessages\<close> builds for a message \<open>m\<close> read from
  \<^verbatim>\<open>messages\<close>, statement by statement.  \<open>data\<close> is the method \<^verbatim>\<open>Data()\<close> of
  the messages of the caller.
\<close>

definition doPublishMessages_message ::
  "(message \<Rightarrow> bytes) \<Rightarrow> 'c AsyncMessageSink \<Rightarrow> message \<Rightarrow> sarama_ProducerMessage" where
  "doPublishMessages_message data ams m =
     (let message = \<lparr>pmsg_Topic = sink_Topic ams, pmsg_Key = None, pmsg_Value = None,
                     pmsg_Metadata = NilMessage\<rparr>;
          message = message\<lparr>pmsg_Value := Some (data m)\<rparr>;
          message = (case sink_KeyFunc ams of
                       Some f \<Rightarrow> message\<lparr>pmsg_Key := Some (f m)\<rparr>
                     | None \<Rightarrow> message);
          message = message\<lparr>pmsg_Metadata := m\<rparr>
      in message)"

text \<open>
  Where the loop of \<^verbatim>\<open>doPublishMessages\<close> stands: blocked in its \<^verbatim>\<open>select\<close>;
  blocked in \<^verbatim>\<open>input <- message\<close>; returned, with what \<^verbatim>\<open>PublishMessages\<close>
  returned; or stopped by a panic (\<^verbatim>\<open>m.Data()\<close> on a nil message).
\<close>

datatype pub_control =
    PubSelect
  | PubAtInput sarama_ProducerMessage
  | PubReturned "error option"
  | PubPanicked

text \<open>
  Where the goroutine started by \<^verbatim>\<open>doPublishMessages\<close> stands: not started (the
  producer could not be made); blocked in \<^verbatim>\<open>range successes\<close>; blocked in
  \<^verbatim>\<open>acks <- ...\<close> with the message it is about to send; past the loop, the channel
  being closed; or stopped by a panic (the type assertion on a nil \<^verbatim>\<open>Metadata\<close>).
\<close>

datatype forwarder =
    FwdNotStarted
  | FwdReceiving
  | FwdSending message
  | FwdDone
  | FwdPanicked

text \<open>
  The state of one call of \<^verbatim>\<open>PublishMessages\<close> together with its goroutine:
  the two control points, and what has been done so far: the requests sent on
  \<^verbatim>\<open>producer.Input()\<close>, the messages sent on \<^verbatim>\<open>acks\<close>, and the number of calls
  \<^verbatim>\<open>producer.Close()\<close>.
\<close>

record publisher_state =
  pub_control :: pub_control
  forwarder :: forwarder
  input :: "sarama_ProducerMessage list"
  acks :: "message list"
  producer_closes :: nat

text \<open>
  One event is one communication completed by the loop or by the goroutine.
  \<open>PubCtxDone\<close> and \<open>ProducerError\<close> carry what \<^verbatim>\<open>producer.Close()\<close> returns when
  \<^verbatim>\<open>PublishMessages\<close> calls it afterwards.  A value read from \<^verbatim>\<open>producer.Errors()\<close>
  is a pointer, and \<^verbatim>\<open>return err\<close> turns it into an \<^verbatim>\<open>error\<close> that is never nil.
\<close>

datatype pub_event =
    NewMessage message
  | InputSent
  | PubCtxDone "error option"
  | ProducerError error "error option"
  | Success sarama_ProducerMessage
  | AckSent
  | SuccessesClosed

text \<open>
  The end of \<^verbatim>\<open>PublishMessages\<close>, given the result of \<^verbatim>\<open>doPublishMessages\<close> and
  the result of \<^verbatim>\<open>producer.Close()\<close>, which is called on both paths.
\<close>

definition PublishMessages_return :: "error option \<Rightarrow> error option \<Rightarrow> error option" where
  "PublishMessages_return err closed =
     (case err of Some e \<Rightarrow> Some e | None \<Rightarrow> closed)"

text \<open>A panic in either goroutine stops the program.\<close>

definition crashed :: "publisher_state \<Rightarrow> bool" where
  "crashed s \<longleftrightarrow> pub_control s = PubPanicked \<or> forwarder s = FwdPanicked"

fun PublishMessages_step ::
  "(message \<Rightarrow> bytes) \<Rightarrow> 'c AsyncMessageSink \<Rightarrow> publisher_state \<Rightarrow> pub_event \<Rightarrow>
   publisher_state option" where
  "PublishMessages_step data ams s ev =
    (if crashed s then None
     else case ev of
        NewMessage m \<Rightarrow>
          (if pub_control s = PubSelect
           then (if m = NilMessage then Some (s\<lparr>pub_control := PubPanicked\<rparr>)
                 else Some (s\<lparr>pub_control :=
                                PubAtInput (doPublishMessages_message data ams m)\<rparr>))
           else None)
      | InputSent \<Rightarrow>
          (case pub_control s of
             PubAtInput message \<Rightarrow>
               Some (s\<lparr>input := input s @ [message], pub_control := PubSelect\<rparr>)
           | _ \<Rightarrow> None)
      | PubCtxDone closed \<Rightarrow>
          (if pub_control s = PubSelect
           then Some (s\<lparr>pub_control := PubReturned (PublishMessages_return None closed),
                        producer_closes := producer_closes s + 1\<rparr>)
           else None)
      | ProducerError err closed \<Rightarrow>
          (if pub_control s = PubSelect
           then Some (s\<lparr>pub_control := PubReturned (PublishMessages_return (Some err) closed),
                        producer_closes := producer_closes s + 1\<rparr>)
           else None)
      | Success suc \<Rightarrow>
          (if forwarder s = FwdReceiving
           then (if pmsg_Metadata suc = NilMessage then Some (s\<lparr>forwarder := FwdPanicked\<rparr>)
                 else Some (s\<lparr>forwarder := FwdSending (pmsg_Metadata suc)\<rparr>))
           else None)
      | AckSent \<Rightarrow>
          (case forwarder s of
             FwdSending m \<Rightarrow> Some (s\<lparr>acks := acks s @ [m], forwarder := FwdReceiving\<rparr>)
           | _ \<Rightarrow> None)
      | SuccessesClosed \<Rightarrow>
          (if forwarder s = FwdReceiving then Some (s\<lparr>forwarder := FwdDone\<rparr>) else None))"

text \<open>
  The start of \<^verbatim>\<open>PublishMessages\<close>: \<^verbatim>\<open>sarama.NewAsyncProducerFromClient\<close> fails,
  and the call returns its error at once, or the goroutine is started and the loop is
  entered.
\<close>

definition PublishMessages_init :: "error option \<Rightarrow> publisher_state" where
  "PublishMessages_init err =
     (case err of
        Some e \<Rightarrow> \<lparr>pub_control = PubReturned (Some e), forwarder = FwdNotStarted,
                   input = [], acks = [], producer_closes = 0\<rparr>
      | None \<Rightarrow> \<lparr>pub_control = PubSelect, forwarder = FwdReceiving,
                 input = [], acks = [], producer_closes = 0\<rparr>)"

fun PublishMessages_run ::
  "(message \<Rightarrow> bytes) \<Rightarrow> 'c AsyncMessageSink \<Rightarrow> publisher_state \<Rightarrow> pub_event list \<Rightarrow>
   publisher_state option" where
  "PublishMessages_run data ams s [] = Some s"
| "PublishMessages_run data ams s (ev # evs) =
     (case PublishMessages_step data ams s ev of
        None \<Rightarrow> None
      | Some s' \<Rightarrow> PublishMessages_run data ams s' evs)"

text \<open>The successes that the goroutine read from \<^verbatim>\<open>producer.Successes()\<close> in a run.\<close>

fun successes_of :: "pub_event list \<Rightarrow> sarama_ProducerMessage list" where
  "successes_of [] = []"
| "successes_of (Success suc # evs) = suc # successes_of evs"
| "successes_of (_ # evs) = successes_of evs"

text \<open>The message that the goroutine holds and has not yet sent on \<^verbatim>\<open>acks\<close>.\<close>

fun pending_ack :: "forwarder \<Rightarrow> message list" where
  "pending_ack (FwdSending m) = [m]"
| "pending_ack _ = []"

text \<open>
  The messages that the loop read from \<^verbatim>\<open>messages\<close> in a run, and the request that
  the loop has built and is blocked sending on \<^verbatim>\<open>producer.Input()\<close>.
\<close>

fun messages_of :: "pub_event list \<Rightarrow> message list" where
  "messages_of [] = []"
| "messages_of (NewMessage m # evs) = m # messages_of evs"
| "messages_of (_ # evs) = messages_of evs"

fun pending_request :: "pub_control \<Rightarrow> sarama_ProducerMessage list" where
  "pending_request (PubAtInput message) = [message]"
| "pending_request _ = []"

text \<open>
  Every request that the loop has built is the one \<open>doPublishMessages_message\<close> gives
  for the message it carries.
\<close>

definition requests_built ::
  "(message \<Rightarrow> bytes) \<Rightarrow> 'c AsyncMessageSink \<Rightarrow> publisher_state \<Rightarrow> bool" where
  "requests_built data ams s \<longleftrightarrow>
     (\<forall>pm \<in> set (input s). pm = doPublishMessages_message data ams (pmsg_Metadata pm)) \<and>
     (\<forall>pm. pub_control s = PubAtInput pm \<longrightarrow>
        pm = doPublishMessages_message data ams (pmsg_Metadata pm))"

section \<open>Example values\<close>

definition broker_message :: "64 word \<Rightarrow> sarama_ConsumerMessage" where
  "broker_message off =
     \<lparr>cmsg_Key = [], cmsg_Value = [1, 2], cmsg_Topic = ''orders'', cmsg_Partition = 0,
      cmsg_Offset = off\<rparr>"

definition session_two_deliveries :: "event list" where
  "session_two_deliveries =
     [BrokerMessage (broker_message 5), SendDone, BrokerMessage (broker_message 5), SendDone]"

definition session_offsets_5_then_3 :: "event list" where
  "session_offsets_5_then_3 =
     [BrokerMessage (broker_message 5), SendDone, BrokerMessage (broker_message 3), SendDone,
      Ack (ConsumerMessageRef 0), Ack (ConsumerMessageRef 1)]"

definition session_offsets_3_then_5 :: "event list" where
  "session_offsets_3_then_5 =
     [BrokerMessage (broker_message 3), SendDone, BrokerMessage (broker_message 5), SendDone,
      Ack (ConsumerMessageRef 0)]"

definition example_Data :: "message \<Rightarrow> bytes" where
  "example_Data m = (case m of CallerMessage n \<Rightarrow> [of_nat n] | _ \<Rightarrow> [])"

definition example_KeyFunc :: "message \<Rightarrow> bytes" where
  "example_KeyFunc m = (case m of CallerMessage n \<Rightarrow> [of_nat (n mod 2)] | _ \<Rightarrow> [])"

definition example_NewConfig :: sarama_Config where
  "example_NewConfig =
     \<lparr>Producer_RequiredAcks = WaitForLocal, Producer_Return_Successes = False,
      Producer_Return_Errors = True, Producer_Retry_Max = 3,
      Producer_Timeout = 10 * Second, Producer_MaxMessageBytes = 1000000,
      Producer_Partitioner = NewHashPartitioner, Config_Version = [0, 8, 2, 0]\<rparr>"

definition example_NewClient :: "string list \<Rightarrow> sarama_Config \<Rightarrow> error + string list" where
  "example_NewClient brokers conf = Inr brokers"

definition example_sink_config :: "(message \<Rightarrow> bytes) option \<Rightarrow> AsyncMessageSinkConfig" where
  "example_sink_config kf =
     \<lparr>sinkcfg_Brokers = [''localhost:9092''], sinkcfg_Topic = ''orders'',
      sinkcfg_MaxMessageBytes = 0, sinkcfg_KeyFunc = kf, sinkcfg_Version = None\<rparr>"

definition example_sink :: "string list AsyncMessageSink" where
  "example_sink =
     \<lparr>sink_client = [''localhost:9092''], sink_Topic = ''orders'', sink_KeyFunc = None\<rparr>"

definition publish_one_success :: "pub_event list" where
  "publish_one_success =
     [NewMessage (CallerMessage 4), InputSent, NewMessage (CallerMessage 9), InputSent,
      Success (doPublishMessages_message example_Data example_sink (CallerMessage 9)),
      AckSent]"

definition publish_error_while_ack_pending :: "pub_event list" where
  "publish_error_while_ack_pending =
     [NewMessage (CallerMessage 4), InputSent,
      Success (doPublishMessages_message example_Data example_sink (CallerMessage 4)),
      ProducerError (ClientError ''broker down'') None]"

definition example_cluster_NewConfig :: cluster_Config where
  "example_cluster_NewConfig =
     \<lparr>Consumer_Return_Errors = False, Consumer_Offsets_Initial = OffsetNewest,
      Consumer_Offsets_Retention = 0, Metadata_RefreshFrequency = 10 * Minute,
      cluster_Version = [0, 9, 0, 0]\<rparr>"

definition example_source_config :: "64 word \<Rightarrow> AsyncMessageSourceConfig" where
  "example_source_config off =
     \<lparr>srccfg_ConsumerGroup = ''billing'', srccfg_Topic = ''orders'',
      srccfg_Brokers = [''localhost:9092''], srccfg_Offset = off,
      srccfg_MetadataRefreshFrequency = 0, srccfg_OffsetsRetention = 0,
      srccfg_Version = None\<rparr>"

section \<open>Lemmas about the source\<close>

declare ConsumeMessages_step.simps [simp del]
declare PublishMessages_step.simps [simp del]

lemma run_snoc:
  "ConsumeMessages_run s (evs @ [ev]) =
     (case ConsumeMessages_run s evs of None \<Rightarrow> None | Some s' \<Rightarrow> ConsumeMessages_step s' ev)"
  by (induction evs arbitrary: s) (auto split: option.splits)

lemma acks_of_append: "acks_of (xs @ ys) = acks_of xs @ acks_of ys"
  by (induction xs rule: acks_of.induct) auto

lemma broker_messages_append: "broker_messages (xs @ ys) = broker_messages xs @ broker_messages ys"
  by (induction xs rule: broker_messages.induct) auto

lemma inv_init: "session_inv [] (ConsumeMessages_init err)"
  by (simp add: session_inv_def ConsumeMessages_init_def split: option.splits)

lemma inv_return:
  assumes "session_inv evs s" and "control s = AtSelect \<or> control s = AtSend a"
    and "broker_messages [ev] = []"
    and "rejected (Returned r) \<or> acks_of [ev] = []"
    and "closes s' = n" and "s' = s\<lparr>control := Returned r, closes := n\<rparr>"
  shows "session_inv (evs @ [ev]) s'"
  using assms
  by (auto simp: session_inv_def broker_messages_append acks_of_append)

lemma inv_step:
  assumes "session_inv evs s" and "ConsumeMessages_step s ev = Some s'"
  shows "session_inv (evs @ [ev]) s'"
proof (cases "control s")
  case AtSelect
  show ?thesis
  proof (cases ev)
    case (BrokerMessage msg)
    with AtSelect assms show ?thesis
      by (auto simp: session_inv_def ConsumeMessages_step.simps broker_messages_append
          acks_of_append nth_append)
  next
    case SendDone
    with AtSelect assms show ?thesis by (simp add: ConsumeMessages_step.simps)
  next
    case (SendCtxDone r)
    with AtSelect assms show ?thesis by (simp add: ConsumeMessages_step.simps)
  next
    case (Ack ack)
    show ?thesis
    proof (cases "forAcking s")
      case Nil
      with Ack AtSelect assms(2)
      have "s' = s\<lparr>control := Returned (Some (InvalidAckError ack NilMessage)),
                     closes := closes s + 1\<rparr>"
        by (simp add: ConsumeMessages_step.simps return_deferred_def Close_def)
      with assms(1) AtSelect Ack show ?thesis
        by (intro inv_return [where n = "closes s + 1"]) auto
    next
      case (Cons h rest)
      show ?thesis
      proof (cases "ack = ConsumerMessageRef h")
        case False
        with Cons Ack AtSelect assms(2)
        have "s' = s\<lparr>control := Returned (Some (InvalidAckError ack (ConsumerMessageRef h))),
                       closes := closes s + 1\<rparr>"
          by (simp add: ConsumeMessages_step.simps return_deferred_def Close_def)
        with assms(1) AtSelect Ack show ?thesis
          by (intro inv_return [where n = "closes s + 1"]) auto
      next
        case True
        from Cons assms(1) have "[length (marked s) ..< length (sent s)] = h # rest"
          by (simp add: session_inv_def)
        then have lt: "length (marked s) < length (sent s)"
          and h: "h = length (marked s)"
          and rest: "rest = [Suc (length (marked s)) ..< length (sent s)]"
          by (auto simp: upt_eq_Cons_conv)
        from assms(1) AtSelect have al: "allocs s = length (sent s)"
          by (simp add: session_inv_def)
        from assms(1) lt al h have hp: "heap s h = Some \<lparr>cm = broker_messages evs ! h\<rparr>"
          by (simp add: session_inv_def)
        from True Cons Ack AtSelect assms(2) hp
        have s': "s' = (MarkOffset (broker_messages evs ! h) [] s)\<lparr>forAcking := rest\<rparr>"
          by (simp add: ConsumeMessages_step.simps)
        from assms(1) have m: "marked s = map (\<lambda>m. (m, [])) (take h (broker_messages evs))"
          by (simp add: session_inv_def h)
        from lt al assms(1) have hl: "h < length (broker_messages evs)"
          by (simp add: session_inv_def h)
        have tk: "take (Suc h) (broker_messages evs) = take h (broker_messages evs) @ [broker_messages evs ! h]"
          using hl by (simp add: take_Suc_conv_app_nth)
        from assms(1) AtSelect have acks: "acks_of evs = map ConsumerMessageRef [0 ..< h]"
          by (simp add: session_inv_def h)
        have "allocs s' = length (broker_messages (evs @ [ev]))"
          using assms(1) Ack by (simp add: s' MarkOffset_def session_inv_def broker_messages_append)
        moreover have "\<forall>i < allocs s'. heap s' i = Some \<lparr>cm = broker_messages (evs @ [ev]) ! i\<rparr>"
          using assms(1) Ack by (simp add: s' MarkOffset_def session_inv_def broker_messages_append)
        moreover have "sent s' = map ConsumerMessageRef [0 ..< length (sent s')]"
          using assms(1) by (simp add: s' MarkOffset_def session_inv_def)
        moreover have "forAcking s' = [length (marked s') ..< length (sent s')]"
          using rest by (simp add: s' MarkOffset_def)
        moreover have "length (marked s') \<le> length (sent s')"
          using lt by (simp add: s' MarkOffset_def)
        moreover have "marked s' = map (\<lambda>m. (m, [])) (take (length (marked s')) (broker_messages (evs @ [ev])))"
          using m tk h Ack by (simp add: s' MarkOffset_def broker_messages_append)
        moreover have "control s' = AtSelect" "allocs s' = length (sent s')"
          using AtSelect al by (simp_all add: s' MarkOffset_def)
        moreover have "acks_of (evs @ [ev]) = map ConsumerMessageRef [0 ..< length (marked s')]"
          using acks h Ack True by (simp add: s' MarkOffset_def acks_of_append)
        ultimately show ?thesis
          by (simp add: session_inv_def)
      qed
    qed
  next
    case (BrokerError err)
    with AtSelect assms show ?thesis
      by (auto simp: session_inv_def ConsumeMessages_step.simps broker_messages_append
          acks_of_append return_deferred_def Close_def)
  next
    case (CtxDone r)
    with AtSelect assms show ?thesis
      by (auto simp: session_inv_def ConsumeMessages_step.simps broker_messages_append
          acks_of_append return_deferred_def Close_def)
  qed
next
  case (AtSend a)
  show ?thesis
  proof (cases ev)
    case SendDone
    with AtSend assms(2)
    have s': "s' = s\<lparr>sent := sent s @ [ConsumerMessageRef a],
                       forAcking := forAcking s @ [a], control := AtSelect\<rparr>"
      by (simp add: ConsumeMessages_step.simps)
    from assms(1) AtSend have a: "a = length (sent s)" and al: "allocs s = a + 1"
      by (simp_all add: session_inv_def)
    from assms(1) have snt: "sent s = map ConsumerMessageRef [0 ..< length (sent s)]"
      and led: "forAcking s = [length (marked s) ..< length (sent s)]"
      and le: "length (marked s) \<le> length (sent s)"
      by (simp_all add: session_inv_def)
    have c1: "allocs s' = length (broker_messages (evs @ [ev]))"
      using assms(1) SendDone by (simp add: s' session_inv_def broker_messages_append)
    have c2: "\<forall>i < allocs s'. heap s' i = Some \<lparr>cm = broker_messages (evs @ [ev]) ! i\<rparr>"
      using assms(1) SendDone by (simp add: s' session_inv_def broker_messages_append)
    have "sent s' = map ConsumerMessageRef [0 ..< length (sent s) + 1]"
      using snt a by (simp add: s')
    then have c3: "sent s' = map ConsumerMessageRef [0 ..< length (sent s')]"
      by (simp add: s')
    have c4: "forAcking s' = [length (marked s') ..< length (sent s')]"
      using led le a by (simp add: s')
    have c5: "length (marked s') \<le> length (sent s')"
      using le by (simp add: s')
    have c6: "marked s' = map (\<lambda>m. (m, [])) (take (length (marked s')) (broker_messages (evs @ [ev])))"
      using assms(1) SendDone by (simp add: s' session_inv_def broker_messages_append)
    have c7: "(case control s' of
                 AtSelect \<Rightarrow> allocs s' = length (sent s')
               | AtSend a \<Rightarrow> a = length (sent s') \<and> allocs s' = a + 1
               | Returned r \<Rightarrow> length (sent s') \<le> allocs s')"
      using al a by (simp add: s')
    have c8: "\<not> rejected (control s') \<longrightarrow>
        acks_of (evs @ [ev]) = map ConsumerMessageRef [0 ..< length (marked s')]"
      using assms(1) AtSend SendDone by (simp add: s' session_inv_def acks_of_append)
    show ?thesis
      unfolding session_inv_def using c1 c2 c3 c4 c5 c6 c7 c8 by blast
  next
    case (SendCtxDone r)
    with AtSend assms show ?thesis
      by (auto simp: session_inv_def ConsumeMessages_step.simps broker_messages_append
          acks_of_append return_deferred_def Close_def)
  qed (use AtSend assms in \<open>simp_all add: ConsumeMessages_step.simps\<close>)
next
  case (Returned r)
  with assms show ?thesis by (simp add: ConsumeMessages_step.simps)
qed

text \<open>Every state that a call reaches from its start satisfies \<open>session_inv\<close>.\<close>

lemma inv_run:
  "ConsumeMessages_run (ConsumeMessages_init err) evs = Some s \<Longrightarrow> session_inv evs s"
proof (induction evs arbitrary: s rule: rev_induct)
  case Nil
  then show ?case using inv_init by auto
next
  case (snoc ev evs)
  then show ?case
    by (auto simp: run_snoc inv_step split: option.splits)
qed

lemma step_returned: "control s = Returned r \<Longrightarrow> ConsumeMessages_step s ev = None"
  by (simp add: ConsumeMessages_step.simps)

lemma prefix_partition_offsets:
  "prefix xs ys \<Longrightarrow> prefix (partition_offsets t p xs) (partition_offsets t p ys)"
  by (auto simp: partition_offsets_def prefix_def)

lemma sorted_wrt_prefix: "prefix xs ys \<Longrightarrow> sorted_wrt P ys \<Longrightarrow> sorted_wrt P xs"
  by (auto simp: prefix_def sorted_wrt_append)

section \<open>Properties of the source\<close>

text \<open>
  Claim C1.  Take any run of \<^verbatim>\<open>ConsumeMessages\<close> from its start.  If the call has
  not returned \<^verbatim>\<open>InvalidAckError\<close>, then the acknowledgments it has read from
  \<^verbatim>\<open>acks\<close>, in order, are a prefix of the messages it has sent on \<^verbatim>\<open>messages\<close>,
  in order; what remains of the sent messages is exactly the ledger \<open>forAcking\<close>.
\<close>

theorem acknowledged_is_prefix_of_delivered:
  assumes "ConsumeMessages_run (ConsumeMessages_init err) evs = Some s"
    and "\<not> rejected (control s)"
  shows "prefix (acks_of evs) (sent s) \<and>
         sent s = acks_of evs @ map ConsumerMessageRef (forAcking s)"
proof -
  from assms(1) have inv: "session_inv evs s" by (rule inv_run)
  let ?k = "length (marked s)" and ?n = "length (sent s)"
  from inv assms(2) have a: "acks_of evs = map ConsumerMessageRef [0 ..< ?k]"
    by (simp add: session_inv_def)
  from inv have le: "?k \<le> ?n" and f: "forAcking s = [?k ..< ?n]"
    and s: "sent s = map ConsumerMessageRef [0 ..< ?n]"
    by (simp_all add: session_inv_def)
  from le have "[0 ..< ?n] = [0 ..< ?k] @ [?k ..< ?n]"
    using upt_add_eq_append [of 0 ?k "?n - ?k"] by simp
  then have "map ConsumerMessageRef [0 ..< ?n] = acks_of evs @ map ConsumerMessageRef (forAcking s)"
    using a f by (metis map_append)
  with s have "sent s = acks_of evs @ map ConsumerMessageRef (forAcking s)" by simp
  then show ?thesis by (metis prefixI)
qed

text \<open>
  Claim C1 on a run: two messages are delivered and the first is acknowledged.
\<close>

theorem acknowledged_is_prefix_of_delivered_witness:
  "\<exists>s. ConsumeMessages_run (ConsumeMessages_init None)
          (session_two_deliveries @ [Ack (ConsumerMessageRef 0)]) = Some s \<and>
       \<not> rejected (control s) \<and>
       acks_of (session_two_deliveries @ [Ack (ConsumerMessageRef 0)]) = [ConsumerMessageRef 0] \<and>
       sent s = [ConsumerMessageRef 0, ConsumerMessageRef 1] \<and>
       prefix (acks_of (session_two_deliveries @ [Ack (ConsumerMessageRef 0)])) (sent s)"
proof -
  obtain s where run: "ConsumeMessages_run (ConsumeMessages_init None)
          (session_two_deliveries @ [Ack (ConsumerMessageRef 0)]) = Some s"
    and ok: "\<not> rejected (control s)"
    and snt: "sent s = [ConsumerMessageRef 0, ConsumerMessageRef 1]"
    by (simp add: session_two_deliveries_def ConsumeMessages_init_def
        ConsumeMessages_step.simps MarkOffset_def)
  have "acks_of (session_two_deliveries @ [Ack (ConsumerMessageRef 0)]) = [ConsumerMessageRef 0]"
    by (simp add: session_two_deliveries_def)
  with acknowledged_is_prefix_of_delivered [OF run ok] run ok snt show ?thesis
    by simp
qed

text \<open>
  Claim C2, as stated, fails in its last part.  The broker delivers offset 5 and then
  offset 3 of the same topic and partition, and the caller acknowledges both in order.
  Both acknowledgments are accepted, the loop goes on, and the offsets marked for that
  partition are 5 and then 3: they are not strictly increasing.
\<close>

theorem commits_not_increasing_counterexample:
  "map_option control (ConsumeMessages_run (ConsumeMessages_init None) session_offsets_5_then_3)
     = Some AtSelect \<and>
   map_option marked (ConsumeMessages_run (ConsumeMessages_init None) session_offsets_5_then_3)
     = Some [(broker_message 5, ''''), (broker_message 3, '''')] \<and>
   partition_offsets ''orders'' 0 [broker_message 5, broker_message 3] = [5, 3] \<and>
   \<not> sorted_wrt (<) (partition_offsets ''orders'' 0 [broker_message 5, broker_message 3])"
  by (simp add: session_offsets_5_then_3_def ConsumeMessages_init_def
      ConsumeMessages_step.simps MarkOffset_def partition_offsets_def broker_message_def)

text \<open>
  Claim C2, amended.  In every state that a call reaches from its start:
  when the loop waits in its \<^verbatim>\<open>select\<close> with the handle \<open>h\<close> at the head of the
  ledger, the heap holds at \<open>h\<close> the wrapper of the \<open>h\<close>-th message of the broker, and
  the acknowledgment of \<open>h\<close> calls \<^verbatim>\<open>MarkOffset\<close> exactly once, with that message
  and the empty metadata, in a state whose ledger still starts with \<open>h\<close>, and only
  then drops the head.  Unless an acknowledgment was refused, there are as many marks
  as acknowledgments read.  The messages marked so far are a prefix of the messages that
  the broker delivered, in the same order.  So for a topic and partition whose offsets
  the broker delivered in strictly increasing order, the marked offsets are strictly
  increasing too.
\<close>

theorem accepted_ack_commits_in_delivery_order:
  assumes "ConsumeMessages_run (ConsumeMessages_init err) evs = Some s"
  shows "(\<forall>h rest. control s = AtSelect \<and> forAcking s = h # rest \<longrightarrow>
           heap s h = Some \<lparr>cm = broker_messages evs ! h\<rparr> \<and>
           forAcking (MarkOffset (broker_messages evs ! h) '''' s) = h # rest \<and>
           marked (MarkOffset (broker_messages evs ! h) '''' s)
             = marked s @ [(broker_messages evs ! h, '''')] \<and>
           ConsumeMessages_step s (Ack (ConsumerMessageRef h))
             = Some ((MarkOffset (broker_messages evs ! h) '''' s)\<lparr>forAcking := rest\<rparr>)) \<and>
         (\<not> rejected (control s) \<longrightarrow> length (marked s) = length (acks_of evs)) \<and>
         prefix (map fst (marked s)) (broker_messages evs) \<and>
         (\<forall>t p. sorted_wrt (<) (partition_offsets t p (broker_messages evs)) \<longrightarrow>
                sorted_wrt (<) (partition_offsets t p (map fst (marked s))))"
proof -
  from assms have inv: "session_inv evs s" by (rule inv_run)
  have cnt: "length (marked s) = length (acks_of evs)" if "\<not> rejected (control s)"
    using inv that by (simp add: session_inv_def)
  have step: "heap s h = Some \<lparr>cm = broker_messages evs ! h\<rparr> \<and>
           forAcking (MarkOffset (broker_messages evs ! h) '''' s) = h # rest \<and>
           marked (MarkOffset (broker_messages evs ! h) '''' s)
             = marked s @ [(broker_messages evs ! h, '''')] \<and>
           ConsumeMessages_step s (Ack (ConsumerMessageRef h))
             = Some ((MarkOffset (broker_messages evs ! h) '''' s)\<lparr>forAcking := rest\<rparr>)"
    if c: "control s = AtSelect" and f: "forAcking s = h # rest" for h rest
  proof -
    from inv f have "[length (marked s) ..< length (sent s)] = h # rest"
      by (simp add: session_inv_def)
    then have "h < length (sent s)"
      by (auto simp: upt_eq_Cons_conv)
    with inv c have "heap s h = Some \<lparr>cm = broker_messages evs ! h\<rparr>"
      by (simp add: session_inv_def)
    with c f show ?thesis
      by (simp add: ConsumeMessages_step.simps MarkOffset_def)
  qed
  from inv have "marked s = map (\<lambda>m. (m, '''')) (take (length (marked s)) (broker_messages evs))"
    by (simp add: session_inv_def)
  moreover have "map fst (map (\<lambda>m. (m, z)) xs) = xs"
    for xs :: "sarama_ConsumerMessage list" and z :: string
    by (simp add: comp_def)
  ultimately have "map fst (marked s) = take (length (marked s)) (broker_messages evs)"
    by metis
  then have pre: "prefix (map fst (marked s)) (broker_messages evs)"
    by (metis take_is_prefix)
  have "sorted_wrt (<) (partition_offsets t p (map fst (marked s)))"
    if "sorted_wrt (<) (partition_offsets t p (broker_messages evs))" for t p
    using that prefix_partition_offsets [OF pre, of t p] by (rule sorted_wrt_prefix [rotated])
  with step cnt pre show ?thesis by blast
qed

text \<open>
  Claim C2, amended, on a run: offsets 3 and 5 are delivered, 3 is acknowledged, and
  the acknowledgment of the second message is the next step.
\<close>

theorem accepted_ack_commits_in_delivery_order_witness:
  "\<exists>s. ConsumeMessages_run (ConsumeMessages_init None) session_offsets_3_then_5 = Some s \<and>
       control s = AtSelect \<and> forAcking s = [1] \<and>
       marked s = [(broker_message 3, '''')] \<and>
       broker_messages session_offsets_3_then_5 = [broker_message 3, broker_message 5] \<and>
       \<not> rejected (control s) \<and> length (marked s) = length (acks_of session_offsets_3_then_5) \<and>
       sorted_wrt (<) (partition_offsets ''orders'' 0 (broker_messages session_offsets_3_then_5)) \<and>
       ConsumeMessages_step s (Ack (ConsumerMessageRef 1))
         = Some ((MarkOffset (broker_message 5) '''' s)\<lparr>forAcking := []\<rparr>) \<and>
       marked (MarkOffset (broker_message 5) '''' s)
         = [(broker_message 3, ''''), (broker_message 5, '''')] \<and>
       prefix (map fst (marked s)) (broker_messages session_offsets_3_then_5) \<and>
       sorted_wrt (<) (partition_offsets ''orders'' 0 (map fst (marked s)))"
proof -
  obtain s where run: "ConsumeMessages_run (ConsumeMessages_init None) session_offsets_3_then_5 = Some s"
    and c: "control s = AtSelect" and f: "forAcking s = [1]"
    and m: "marked s = [(broker_message 3, '''')]"
    by (simp add: session_offsets_3_then_5_def ConsumeMessages_init_def
        ConsumeMessages_step.simps MarkOffset_def)
  have b: "broker_messages session_offsets_3_then_5 = [broker_message 3, broker_message 5]"
    by (simp add: session_offsets_3_then_5_def)
  have srt: "sorted_wrt (<) (partition_offsets ''orders'' 0 (broker_messages session_offsets_3_then_5))"
    by (simp add: b partition_offsets_def broker_message_def)
  have ak: "acks_of session_offsets_3_then_5 = [ConsumerMessageRef 0]"
    by (simp add: session_offsets_3_then_5_def)
  from accepted_ack_commits_in_delivery_order [OF run] run c f m b srt show ?thesis
    by (simp add: MarkOffset_def ak)
qed

text \<open>
  Claim C3.  In every state where the loop waits in its \<^verbatim>\<open>select\<close> with a ledger
  that is not empty: an acknowledgment that is not the pointer at the head of the ledger
  makes the call return \<^verbatim>\<open>InvalidAckError\<close> with \<^verbatim>\<open>Acked\<close> the acknowledged value
  and \<^verbatim>\<open>Expected\<close> the head.  Nothing is marked, the ledger and the sent messages stay
  as they were, the deferred \<^verbatim>\<open>Close\<close> runs once, and no further event is taken.
\<close>

theorem wrong_ack_is_rejected:
  assumes "control s = AtSelect" and "forAcking s = h # rest"
    and "ack \<noteq> ConsumerMessageRef h"
  shows "\<exists>s'. ConsumeMessages_step s (Ack ack) = Some s' \<and>
           control s' = Returned (Some (InvalidAckError ack (ConsumerMessageRef h))) \<and>
           Acked (InvalidAckError ack (ConsumerMessageRef h)) = ack \<and>
           Expected (InvalidAckError ack (ConsumerMessageRef h)) = ConsumerMessageRef h \<and>
           marked s' = marked s \<and> forAcking s' = forAcking s \<and> sent s' = sent s \<and>
           closes s' = closes s + 1 \<and>
           (\<forall>ev. ConsumeMessages_step s' ev = None)"
  using assms
  by (simp add: ConsumeMessages_step.simps return_deferred_def Close_def)

text \<open>
  Claim C3 on a run: two messages with the same content are delivered, and the second
  one is acknowledged first.  The comparison is of the pointers, so it is refused.
\<close>

theorem wrong_ack_is_rejected_witness:
  "\<exists>s s'. ConsumeMessages_run (ConsumeMessages_init None) session_two_deliveries = Some s \<and>
       control s = AtSelect \<and> forAcking s = [0, 1] \<and>
       heap s 0 = heap s 1 \<and>
       ConsumeMessages_step s (Ack (ConsumerMessageRef 1)) = Some s' \<and>
       control s' = Returned (Some (InvalidAckError (ConsumerMessageRef 1) (ConsumerMessageRef 0))) \<and>
       marked s' = marked s"
proof -
  obtain s where run: "ConsumeMessages_run (ConsumeMessages_init None) session_two_deliveries = Some s"
    and c: "control s = AtSelect" and f: "forAcking s = [0, 1]" and hp: "heap s 0 = heap s 1"
    by (simp add: session_two_deliveries_def ConsumeMessages_init_def
        ConsumeMessages_step.simps)
  have ne: "ConsumerMessageRef 1 \<noteq> ConsumerMessageRef 0" by simp
  from wrong_ack_is_rejected [OF c f ne] run c f hp show ?thesis
    by auto
qed

text \<open>
  Claim C4.  In every state where the loop waits in its \<^verbatim>\<open>select\<close> with an empty
  ledger, any acknowledgment makes the call return \<^verbatim>\<open>InvalidAckError\<close> with
  \<^verbatim>\<open>Acked\<close> the acknowledged value and \<^verbatim>\<open>Expected\<close> nil.  Nothing is marked, the
  deferred \<^verbatim>\<open>Close\<close> runs once, and no further event is taken.
\<close>

theorem ack_on_empty_ledger_is_rejected:
  assumes "control s = AtSelect" and "forAcking s = []"
  shows "\<exists>s'. ConsumeMessages_step s (Ack ack) = Some s' \<and>
           control s' = Returned (Some (InvalidAckError ack NilMessage)) \<and>
           Acked (InvalidAckError ack NilMessage) = ack \<and>
           Expected (InvalidAckError ack NilMessage) = NilMessage \<and>
           marked s' = marked s \<and> closes s' = closes s + 1 \<and>
           (\<forall>ev. ConsumeMessages_step s' ev = None)"
  using assms
  by (simp add: ConsumeMessages_step.simps return_deferred_def Close_def)

text \<open>Claim C4 at the start of a call: nothing was delivered and a message is acknowledged.\<close>

theorem ack_on_empty_ledger_is_rejected_witness:
  "control (ConsumeMessages_init None) = AtSelect \<and> forAcking (ConsumeMessages_init None) = [] \<and>
   (\<exists>s'. ConsumeMessages_step (ConsumeMessages_init None) (Ack (CallerMessage 7)) = Some s' \<and>
        control s' = Returned (Some (InvalidAckError (CallerMessage 7) NilMessage)))"
proof -
  have c: "control (ConsumeMessages_init None) = AtSelect"
    and f: "forAcking (ConsumeMessages_init None) = []"
    by (simp_all add: ConsumeMessages_init_def)
  from ack_on_empty_ledger_is_rejected [OF c f, of "CallerMessage 7"] c f show ?thesis
    by auto
qed

text \<open>
  Claim C5, as stated, fails in its second part.  The call returns what
  \<^verbatim>\<open>c.Close()\<close> returns, so a cancellation ends with an error when closing the
  consumer fails, in the outer \<^verbatim>\<open>select\<close> as well as during a send.
\<close>

theorem cancellation_returns_error_counterexample:
  "map_option control
     (ConsumeMessages_run (ConsumeMessages_init None) [CtxDone (Some (ClientError ''close failed''))])
   = Some (Returned (Some (ClientError ''close failed''))) \<and>
   map_option control
     (ConsumeMessages_run (ConsumeMessages_init None)
        [BrokerMessage (broker_message 5), SendCtxDone (Some (ClientError ''close failed''))])
   = Some (Returned (Some (ClientError ''close failed'')))"
  by (simp add: ConsumeMessages_init_def ConsumeMessages_step.simps return_deferred_def Close_def)

text \<open>
  Claim C5, amended.  In every state that a call reaches from its start:
  if the loop is offering the message at address \<open>a\<close> on \<^verbatim>\<open>messages\<close> and the
  context is done first, then \<open>a\<close> is not in the ledger and the call returns; if the
  loop waits in its outer \<^verbatim>\<open>select\<close> and the context is done, the call returns.
  In both cases \<^verbatim>\<open>c.Close()\<close> has been called (once by the \<^verbatim>\<open>return\<close> statement
  and once by the deferred function), the value returned is the result \<open>r\<close> of the
  first of these calls (no error when \<open>r\<close> is \<open>None\<close>), the ledger is left as it was,
  and no further event is taken.
\<close>

theorem cancellation_closes_and_returns_close_result:
  assumes "ConsumeMessages_run (ConsumeMessages_init err) evs = Some s"
  shows "(\<forall>a. control s = AtSend a \<longrightarrow>
            a \<notin> set (forAcking s) \<and>
            ConsumeMessages_step s (SendCtxDone r)
              = Some (s\<lparr>control := Returned r, closes := closes s + 2\<rparr>)) \<and>
         (control s = AtSelect \<longrightarrow>
            ConsumeMessages_step s (CtxDone r)
              = Some (s\<lparr>control := Returned r, closes := closes s + 2\<rparr>)) \<and>
         forAcking (s\<lparr>control := Returned r, closes := closes s + 2\<rparr>) = forAcking s \<and>
         (\<forall>ev. ConsumeMessages_step (s\<lparr>control := Returned r, closes := closes s + 2\<rparr>) ev = None)"
proof -
  from assms have inv: "session_inv evs s" by (rule inv_run)
  have "a \<notin> set (forAcking s)" if "control s = AtSend a" for a
    using inv that by (simp add: session_inv_def)
  then show ?thesis
    by (simp add: ConsumeMessages_step.simps return_deferred_def Close_def)
qed

text \<open>
  Claim C5, amended, on two runs: the context is done while the second message is
  offered, and the context is done while the loop waits in its outer \<^verbatim>\<open>select\<close>;
  closing the consumer succeeds.
\<close>

theorem cancellation_closes_and_returns_close_result_witness:
  "\<exists>s t. ConsumeMessages_run (ConsumeMessages_init None)
          [BrokerMessage (broker_message 3), SendDone, BrokerMessage (broker_message 5)] = Some s \<and>
       control s = AtSend 1 \<and> forAcking s = [0] \<and> closes s = 0 \<and>
       1 \<notin> set (forAcking s) \<and>
       ConsumeMessages_step s (SendCtxDone None)
         = Some (s\<lparr>control := Returned None, closes := 2\<rparr>) \<and>
       ConsumeMessages_run (ConsumeMessages_init None)
          [BrokerMessage (broker_message 3), SendDone] = Some t \<and>
       control t = AtSelect \<and> forAcking t = [0] \<and> closes t = 0 \<and>
       ConsumeMessages_step t (CtxDone None)
         = Some (t\<lparr>control := Returned None, closes := 2\<rparr>)"
proof -
  obtain s where run: "ConsumeMessages_run (ConsumeMessages_init None)
          [BrokerMessage (broker_message 3), SendDone, BrokerMessage (broker_message 5)] = Some s"
    and c: "control s = AtSend 1" and f: "forAcking s = [0]" and z: "closes s = 0"
    by (simp add: ConsumeMessages_init_def ConsumeMessages_step.simps)
  obtain t where run': "ConsumeMessages_run (ConsumeMessages_init None)
          [BrokerMessage (broker_message 3), SendDone] = Some t"
    and c': "control t = AtSelect" and f': "forAcking t = [0]" and z': "closes t = 0"
    by (simp add: ConsumeMessages_init_def ConsumeMessages_step.simps)
  from cancellation_closes_and_returns_close_result [OF run, of None]
       cancellation_closes_and_returns_close_result [OF run', of None]
       run c f z run' c' f' z'
  show ?thesis
    by simp
qed

section \<open>Lemmas about the sink\<close>

lemma message_Metadata: "pmsg_Metadata (doPublishMessages_message data ams m) = m"
  by (simp add: doPublishMessages_message_def Let_def split: option.splits)

lemma fwd_step:
  assumes "PublishMessages_step data ams s ev = Some s'" and "forwarder s' \<noteq> FwdPanicked"
  shows "acks s' @ pending_ack (forwarder s')
           = acks s @ pending_ack (forwarder s) @ map pmsg_Metadata (successes_of [ev])"
  using assms
  by (cases ev)
    (auto simp: PublishMessages_step.simps split: if_splits pub_control.splits forwarder.splits)

lemma successes_of_Cons: "successes_of (ev # evs) = successes_of [ev] @ successes_of evs"
  by (cases ev) simp_all

lemma crashed_run:
  "crashed s \<Longrightarrow> PublishMessages_run data ams s evs = Some s' \<Longrightarrow> s' = s"
  by (cases evs) (simp_all add: PublishMessages_step.simps)

lemma fwd_run:
  assumes "PublishMessages_run data ams s evs = Some s'" and "forwarder s' \<noteq> FwdPanicked"
  shows "acks s' @ pending_ack (forwarder s')
           = acks s @ pending_ack (forwarder s) @ map pmsg_Metadata (successes_of evs)"
  using assms
proof (induction evs arbitrary: s)
  case Nil
  then show ?case by simp
next
  case (Cons ev evs)
  from Cons.prems(1) obtain s1 where
    st: "PublishMessages_step data ams s ev = Some s1"
    and rn: "PublishMessages_run data ams s1 evs = Some s'"
    by (auto split: option.splits)
  have "forwarder s1 \<noteq> FwdPanicked"
  proof
    assume "forwarder s1 = FwdPanicked"
    then have "crashed s1" by (simp add: crashed_def)
    then have "s' = s1" using rn by (rule crashed_run)
    with \<open>forwarder s1 = FwdPanicked\<close> Cons.prems(2) show False by simp
  qed
  with st have "acks s1 @ pending_ack (forwarder s1)
           = acks s @ pending_ack (forwarder s) @ map pmsg_Metadata (successes_of [ev])"
    by (rule fwd_step)
  moreover from rn Cons.prems(2) have "acks s' @ pending_ack (forwarder s')
           = acks s1 @ pending_ack (forwarder s1) @ map pmsg_Metadata (successes_of evs)"
    by (rule Cons.IH)
  ultimately show ?case
    by (simp add: successes_of_Cons [of ev evs])
qed

lemma returned_step:
  assumes "PublishMessages_step data ams s ev = Some s'" and "pub_control s = PubReturned r"
  shows "pub_control s' = PubReturned r \<and> input s' = input s \<and>
         producer_closes s' = producer_closes s"
  using assms
  by (cases ev)
    (auto simp: PublishMessages_step.simps split: if_splits forwarder.splits)

lemma returned_run:
  assumes "PublishMessages_run data ams s evs = Some s'" and "pub_control s = PubReturned r"
  shows "pub_control s' = PubReturned r \<and> input s' = input s \<and>
         producer_closes s' = producer_closes s"
  using assms
proof (induction evs arbitrary: s)
  case Nil
  then show ?case by simp
next
  case (Cons ev evs)
  from Cons.prems(1) obtain s1 where
    st: "PublishMessages_step data ams s ev = Some s1"
    and rn: "PublishMessages_run data ams s1 evs = Some s'"
    by (auto split: option.splits)
  from returned_step [OF st Cons.prems(2)] Cons.IH [OF rn] show ?case
    by simp
qed

lemma built_step:
  assumes "PublishMessages_step data ams s ev = Some s'" and "requests_built data ams s"
  shows "requests_built data ams s'"
  using assms
  by (cases ev)
    (auto simp: PublishMessages_step.simps requests_built_def message_Metadata
      split: if_splits forwarder.splits pub_control.splits)

lemma built_run:
  assumes "PublishMessages_run data ams s evs = Some s'" and "requests_built data ams s"
  shows "requests_built data ams s'"
  using assms
proof (induction evs arbitrary: s)
  case Nil
  then show ?case by simp
next
  case (Cons ev evs)
  then show ?case
    by (auto split: option.splits dest: built_step)
qed

lemma built_init: "requests_built data ams (PublishMessages_init err)"
  by (simp add: requests_built_def PublishMessages_init_def split: option.splits)

lemma messages_of_Cons: "messages_of (ev # evs) = messages_of [ev] @ messages_of evs"
  by (cases ev) simp_all

lemma request_step:
  assumes "PublishMessages_step data ams s ev = Some s'" and "pub_control s' \<noteq> PubPanicked"
  shows "input s' @ pending_request (pub_control s')
           = input s @ pending_request (pub_control s)
               @ map (doPublishMessages_message data ams) (messages_of [ev])"
  using assms
  by (cases ev)
    (auto simp: PublishMessages_step.simps split: if_splits pub_control.splits forwarder.splits)

lemma request_run:
  assumes "PublishMessages_run data ams s evs = Some s'" and "pub_control s' \<noteq> PubPanicked"
  shows "input s' @ pending_request (pub_control s')
           = input s @ pending_request (pub_control s)
               @ map (doPublishMessages_message data ams) (messages_of evs)"
  using assms
proof (induction evs arbitrary: s)
  case Nil
  then show ?case by simp
next
  case (Cons ev evs)
  from Cons.prems(1) obtain s1 where
    st: "PublishMessages_step data ams s ev = Some s1"
    and rn: "PublishMessages_run data ams s1 evs = Some s'"
    by (auto split: option.splits)
  have "pub_control s1 \<noteq> PubPanicked"
  proof
    assume p: "pub_control s1 = PubPanicked"
    then have "crashed s1" by (simp add: crashed_def)
    then have "s' = s1" using rn by (rule crashed_run)
    with p Cons.prems(2) show False by simp
  qed
  with st have "input s1 @ pending_request (pub_control s1)
           = input s @ pending_request (pub_control s)
               @ map (doPublishMessages_message data ams) (messages_of [ev])"
    by (rule request_step)
  moreover from rn Cons.prems(2) have "input s' @ pending_request (pub_control s')
           = input s1 @ pending_request (pub_control s1)
               @ map (doPublishMessages_message data ams) (messages_of evs)"
    by (rule Cons.IH)
  ultimately show ?case
    by (simp add: messages_of_Cons [of ev evs])
qed

section \<open>Properties of the sink\<close>

text \<open>
  Claim C6.  The request built for a message \<open>M\<close> carries \<open>M\<close> itself as its
  \<^verbatim>\<open>Metadata\<close>, and every request handed to the producer was built that way.  In every
  state that a call and its goroutine reach from the start without a failed type
  assertion, the messages sent on \<^verbatim>\<open>acks\<close>, followed by the one the goroutine is
  about to send, are the \<^verbatim>\<open>Metadata\<close> of the successes read from the producer, one
  for one and in order; the pending one is sent by the next step of the goroutine.
  So when nothing is pending and exactly one success carried \<open>M\<close>, then \<open>M\<close> stands
  exactly once on \<^verbatim>\<open>acks\<close>.
\<close>

theorem success_is_acknowledged_once:
  assumes "PublishMessages_run data ams (PublishMessages_init None) evs = Some s"
    and "forwarder s \<noteq> FwdPanicked"
  shows "pmsg_Metadata (doPublishMessages_message data ams M) = M \<and>
         (\<forall>pm \<in> set (input s). pm = doPublishMessages_message data ams (pmsg_Metadata pm)) \<and>
         acks s @ pending_ack (forwarder s) = map pmsg_Metadata (successes_of evs) \<and>
         (\<forall>m. forwarder s = FwdSending m \<and> pub_control s \<noteq> PubPanicked \<longrightarrow>
            PublishMessages_step data ams s AckSent
              = Some (s\<lparr>acks := acks s @ [m], forwarder := FwdReceiving\<rparr>)) \<and>
         (pending_ack (forwarder s) = [] \<and>
          count_list (map pmsg_Metadata (successes_of evs)) M = 1 \<longrightarrow>
            count_list (acks s) M = 1)"
proof -
  have i: "acks (PublishMessages_init None) @ pending_ack (forwarder (PublishMessages_init None)) = []"
    by (simp add: PublishMessages_init_def)
  from fwd_run [OF assms] i
  have eq: "acks s @ pending_ack (forwarder s) = map pmsg_Metadata (successes_of evs)"
    by simp
  from built_run [OF assms(1) built_init]
  have b: "\<forall>pm \<in> set (input s). pm = doPublishMessages_message data ams (pmsg_Metadata pm)"
    by (simp add: requests_built_def)
  have e: "PublishMessages_step data ams s AckSent
              = Some (s\<lparr>acks := acks s @ [m], forwarder := FwdReceiving\<rparr>)"
    if "forwarder s = FwdSending m" "pub_control s \<noteq> PubPanicked" for m
    using that by (simp add: PublishMessages_step.simps crashed_def)
  have c: "count_list (acks s) M = 1"
    if "pending_ack (forwarder s) = []" "count_list (map pmsg_Metadata (successes_of evs)) M = 1"
    using that eq by simp
  from message_Metadata [of data ams M] b eq e c show ?thesis
    by blast
qed

text \<open>
  Claim C6 on a run: two messages are published, the producer reports success for the
  second, and the goroutine forwards it; and on the same run without its last step,
  where the goroutine still holds the message.
\<close>

theorem success_is_acknowledged_once_witness:
  "\<exists>s t. PublishMessages_run example_Data example_sink (PublishMessages_init None)
          publish_one_success = Some s \<and>
       forwarder s = FwdReceiving \<and>
       map pmsg_Metadata (input s) = [CallerMessage 4, CallerMessage 9] \<and>
       map pmsg_Metadata (successes_of publish_one_success) = [CallerMessage 9] \<and>
       acks s = [CallerMessage 9] \<and>
       count_list (acks s) (CallerMessage 9) = 1 \<and>
       PublishMessages_run example_Data example_sink (PublishMessages_init None)
          (butlast publish_one_success) = Some t \<and>
       forwarder t = FwdSending (CallerMessage 9) \<and> pub_control t = PubSelect \<and>
       acks t = [] \<and>
       PublishMessages_step example_Data example_sink t AckSent = Some s"
proof -
  obtain s where run: "PublishMessages_run example_Data example_sink (PublishMessages_init None)
          publish_one_success = Some s"
    and f: "forwarder s = FwdReceiving"
    and i: "map pmsg_Metadata (input s) = [CallerMessage 4, CallerMessage 9]"
    by (simp add: publish_one_success_def PublishMessages_init_def PublishMessages_step.simps
        crashed_def message_Metadata)
  obtain t where run': "PublishMessages_run example_Data example_sink (PublishMessages_init None)
          (butlast publish_one_success) = Some t"
    and f': "forwarder t = FwdSending (CallerMessage 9)" and c': "pub_control t = PubSelect"
    and st: "PublishMessages_step example_Data example_sink t AckSent = Some s"
    using run
    by (simp add: publish_one_success_def PublishMessages_init_def PublishMessages_step.simps
        crashed_def message_Metadata)
  from f have np: "forwarder s \<noteq> FwdPanicked" by simp
  from f' have np': "forwarder t \<noteq> FwdPanicked" by simp
  have su: "map pmsg_Metadata (successes_of publish_one_success) = [CallerMessage 9]"
    and su': "map pmsg_Metadata (successes_of (butlast publish_one_success)) = [CallerMessage 9]"
    by (simp_all add: publish_one_success_def message_Metadata)
  from success_is_acknowledged_once [OF run np, of "CallerMessage 9"]
       success_is_acknowledged_once [OF run' np', of "CallerMessage 9"]
       run f i su run' f' c' st su'
  show ?thesis
    by simp
qed

text \<open>
  Claim C7, as stated, fails in its second part.  The goroutine has read a success and
  is blocked sending it on \<^verbatim>\<open>acks\<close> when the loop reads an error from the producer.
  \<^verbatim>\<open>PublishMessages\<close> returns that error with nothing sent on \<^verbatim>\<open>acks\<close>; the
  goroutine is not stopped, and afterwards it sends the message.
\<close>

theorem ack_after_return_counterexample:
  "map_option pub_control
     (PublishMessages_run example_Data example_sink (PublishMessages_init None)
        publish_error_while_ack_pending)
     = Some (PubReturned (Some (ClientError ''broker down''))) \<and>
   map_option acks
     (PublishMessages_run example_Data example_sink (PublishMessages_init None)
        publish_error_while_ack_pending)
     = Some [] \<and>
   map_option pub_control
     (PublishMessages_run example_Data example_sink (PublishMessages_init None)
        (publish_error_while_ack_pending @ [AckSent]))
     = Some (PubReturned (Some (ClientError ''broker down''))) \<and>
   map_option acks
     (PublishMessages_run example_Data example_sink (PublishMessages_init None)
        (publish_error_while_ack_pending @ [AckSent]))
     = Some [CallerMessage 4]"
  by (simp add: publish_error_while_ack_pending_def PublishMessages_init_def
      PublishMessages_step.simps crashed_def message_Metadata PublishMessages_return_def)

text \<open>
  Claim C7, amended.  When the loop waits in its \<^verbatim>\<open>select\<close> and reads an error
  from the producer, \<^verbatim>\<open>PublishMessages\<close> closes the producer and returns that error;
  that step sends nothing on \<^verbatim>\<open>acks\<close>.  In whatever follows a return, the call stays
  returned and hands nothing more to the producer, and all that is added to \<^verbatim>\<open>acks\<close>
  comes from the goroutine: the message it was holding at the return and the
  \<^verbatim>\<open>Metadata\<close> of the successes it reads afterwards, in order.
\<close>

theorem broker_error_returns_it_and_forwarder_goes_on:
  "(pub_control s = PubSelect \<and> \<not> crashed s \<longrightarrow>
      PublishMessages_step data ams s (ProducerError e closed)
        = Some (s\<lparr>pub_control := PubReturned (Some e),
                  producer_closes := producer_closes s + 1\<rparr>)) \<and>
   (pub_control s = PubReturned r \<and> PublishMessages_run data ams s evs = Some s' \<and>
    forwarder s' \<noteq> FwdPanicked \<longrightarrow>
      pub_control s' = PubReturned r \<and> input s' = input s \<and>
      producer_closes s' = producer_closes s \<and>
      acks s' @ pending_ack (forwarder s')
        = acks s @ pending_ack (forwarder s) @ map pmsg_Metadata (successes_of evs))"
  using returned_run [of data ams s evs s' r] fwd_run [of data ams s evs s']
  by (simp add: PublishMessages_step.simps PublishMessages_return_def)

text \<open>
  Claim C7, amended, on a run: the error arrives while an acknowledgment is pending,
  and the acknowledgment is sent after the return.
\<close>

theorem broker_error_returns_it_and_forwarder_goes_on_witness:
  "\<exists>s s'. PublishMessages_run example_Data example_sink (PublishMessages_init None)
          [NewMessage (CallerMessage 4), InputSent,
           Success (doPublishMessages_message example_Data example_sink (CallerMessage 4))] = Some s \<and>
       pub_control s = PubSelect \<and> \<not> crashed s \<and>
       PublishMessages_step example_Data example_sink s
          (ProducerError (ClientError ''broker down'') None) = Some s' \<and>
       pub_control s' = PubReturned (Some (ClientError ''broker down'')) \<and>
       acks s' = acks s \<and>
       PublishMessages_run example_Data example_sink s' [AckSent]
         = Some (s'\<lparr>acks := [CallerMessage 4], forwarder := FwdReceiving\<rparr>) \<and>
       pub_control (s'\<lparr>acks := [CallerMessage 4], forwarder := FwdReceiving\<rparr>)
         = PubReturned (Some (ClientError ''broker down''))"
proof -
  obtain s where run: "PublishMessages_run example_Data example_sink (PublishMessages_init None)
          [NewMessage (CallerMessage 4), InputSent,
           Success (doPublishMessages_message example_Data example_sink (CallerMessage 4))] = Some s"
    and c: "pub_control s = PubSelect" and nc: "\<not> crashed s"
    and f: "forwarder s = FwdSending (CallerMessage 4)" and a: "acks s = []"
    by (simp add: PublishMessages_init_def PublishMessages_step.simps crashed_def
        message_Metadata)
  define s' where "s' = s\<lparr>pub_control := PubReturned (Some (ClientError ''broker down'')),
                  producer_closes := producer_closes s + 1\<rparr>"
  have r: "pub_control s' = PubReturned (Some (ClientError ''broker down''))"
    by (simp add: s'_def)
  have rn: "PublishMessages_run example_Data example_sink s' [AckSent]
         = Some (s'\<lparr>acks := [CallerMessage 4], forwarder := FwdReceiving\<rparr>)"
    using f a by (simp add: s'_def PublishMessages_step.simps crashed_def)
  have np: "forwarder (s'\<lparr>acks := [CallerMessage 4], forwarder := FwdReceiving\<rparr>) \<noteq> FwdPanicked"
    by simp
  from broker_error_returns_it_and_forwarder_goes_on
         [where s = s and data = example_Data and ams = example_sink
            and e = "ClientError ''broker down''" and closed = None]
       broker_error_returns_it_and_forwarder_goes_on
         [where s = s' and data = example_Data and ams = example_sink and evs = "[AckSent]"
            and s' = "s'\<lparr>acks := [CallerMessage 4], forwarder := FwdReceiving\<rparr>"
            and r = "Some (ClientError ''broker down'')"]
       run c nc r rn np
  show ?thesis
    by (auto simp: s'_def)
qed

text \<open>
  Claim C8, as stated, fails.  After a cancellation \<^verbatim>\<open>PublishMessages\<close> returns
  what \<^verbatim>\<open>producer.Close()\<close> returns, which is an error when closing fails.
\<close>

theorem publish_cancellation_returns_error_counterexample:
  "map_option pub_control
     (PublishMessages_run example_Data example_sink (PublishMessages_init None)
        [PubCtxDone (Some (ClientError ''flush failed''))])
   = Some (PubReturned (Some (ClientError ''flush failed'')))"
  by (simp add: PublishMessages_init_def PublishMessages_step.simps crashed_def
      PublishMessages_return_def)

text \<open>
  Claim C8, amended.  When the loop waits in its \<^verbatim>\<open>select\<close> and the context is
  done, \<^verbatim>\<open>doPublishMessages\<close> returns nil, and \<^verbatim>\<open>PublishMessages\<close> closes the
  producer and returns the result \<open>closed\<close> of that call: no error when closing
  succeeds.
\<close>

theorem publish_cancellation_returns_close_result:
  assumes "pub_control s = PubSelect" and "\<not> crashed s"
  shows "PublishMessages_return None closed = closed \<and>
         PublishMessages_step data ams s (PubCtxDone closed)
           = Some (s\<lparr>pub_control := PubReturned closed,
                     producer_closes := producer_closes s + 1\<rparr>)"
  using assms
  by (simp add: PublishMessages_step.simps PublishMessages_return_def)

text \<open>Claim C8, amended, at the start of a call, with a producer that closes cleanly.\<close>

theorem publish_cancellation_returns_close_result_witness:
  "pub_control (PublishMessages_init None) = PubSelect \<and>
   \<not> crashed (PublishMessages_init None) \<and>
   map_option pub_control
     (PublishMessages_step example_Data example_sink (PublishMessages_init None) (PubCtxDone None))
     = Some (PubReturned None)"
proof -
  have c: "pub_control (PublishMessages_init None) = PubSelect"
    and nc: "\<not> crashed (PublishMessages_init None)"
    by (simp_all add: PublishMessages_init_def crashed_def)
  from publish_cancellation_returns_close_result
         [OF c nc, where closed = None and data = example_Data and ams = example_sink] c nc
  show ?thesis by simp
qed

text \<open>
  Claim C9.  Let \<^verbatim>\<open>NewAsyncMessageSink\<close> succeed on a configuration.  The client of
  the sink was made with the configuration that \<^verbatim>\<open>buildSaramaProducerConfig\<close> built.
  If \<^verbatim>\<open>KeyFunc\<close> is a function \<open>f\<close>, that configuration selects the hash
  partitioner and every request built for a message \<open>m\<close> carries the key \<open>f m\<close>.
  If \<^verbatim>\<open>KeyFunc\<close> is nil, it selects the round-robin partitioner and no request
  carries a key.  This holds of what \<^verbatim>\<open>PublishMessages\<close> sends to the producer: in
  every state that a call on this sink reaches from its start without a panic of the
  loop, the requests sent on \<^verbatim>\<open>producer.Input()\<close>, followed by the one the loop is
  blocked sending, are the requests built for the messages read from \<^verbatim>\<open>messages\<close>,
  one for one and in order, and the pending one is sent by the next step of the loop;
  so every request sent carries the key \<open>f\<close> of the message it carries when
  \<^verbatim>\<open>KeyFunc\<close> is \<open>f\<close>, and no key when \<^verbatim>\<open>KeyFunc\<close> is nil.
\<close>

theorem key_function_decides_partitioner_and_key:
  assumes "NewAsyncMessageSink NewConfig MaxRequestSize NewClient config
             = (Inr ams, MaxRequestSize')"
  shows "NewClient (sinkcfg_Brokers config)
           (fst (buildSaramaProducerConfig NewConfig MaxRequestSize config))
           = Inr (sink_client ams) \<and>
         (\<forall>f. sinkcfg_KeyFunc config = Some f \<longrightarrow>
            Producer_Partitioner (fst (buildSaramaProducerConfig NewConfig MaxRequestSize config))
              = NewHashPartitioner \<and>
            (\<forall>m. pmsg_Key (doPublishMessages_message data ams m) = Some (f m)) \<and>
            (\<forall>err evs s. PublishMessages_run data ams (PublishMessages_init err) evs = Some s \<longrightarrow>
               (\<forall>pm \<in> set (input s @ pending_request (pub_control s)).
                  pmsg_Key pm = Some (f (pmsg_Metadata pm))))) \<and>
         (sinkcfg_KeyFunc config = None \<longrightarrow>
            Producer_Partitioner (fst (buildSaramaProducerConfig NewConfig MaxRequestSize config))
              = NewRoundRobinPartitioner \<and>
            (\<forall>m. pmsg_Key (doPublishMessages_message data ams m) = None) \<and>
            (\<forall>err evs s. PublishMessages_run data ams (PublishMessages_init err) evs = Some s \<longrightarrow>
               (\<forall>pm \<in> set (input s @ pending_request (pub_control s)).
                  pmsg_Key pm = None))) \<and>
         (\<forall>err evs s. PublishMessages_run data ams (PublishMessages_init err) evs = Some s \<and>
              pub_control s \<noteq> PubPanicked \<longrightarrow>
            input s @ pending_request (pub_control s)
              = map (doPublishMessages_message data ams) (messages_of evs)) \<and>
         (\<forall>s message. pub_control s = PubAtInput message \<and> \<not> crashed s \<longrightarrow>
            PublishMessages_step data ams s InputSent
              = Some (s\<lparr>input := input s @ [message], pub_control := PubSelect\<rparr>))"
proof -
  obtain conf mrs where b: "buildSaramaProducerConfig NewConfig MaxRequestSize config = (conf, mrs)"
    by (cases "buildSaramaProducerConfig NewConfig MaxRequestSize config")
  from assms b obtain client where
    cl: "NewClient (sinkcfg_Brokers config) conf = Inr client"
    and ams: "ams = \<lparr>sink_client = client, sink_Topic = sinkcfg_Topic config,
                      sink_KeyFunc = sinkcfg_KeyFunc config\<rparr>"
    by (auto simp: NewAsyncMessageSink_def split: sum.splits)
  have p: "Producer_Partitioner conf =
             (case sinkcfg_KeyFunc config of
                Some f \<Rightarrow> NewHashPartitioner | None \<Rightarrow> NewRoundRobinPartitioner)"
    using b by (auto simp: buildSaramaProducerConfig_def Let_def split: option.splits)
  have k: "pmsg_Key (doPublishMessages_message data ams m) =
             (case sinkcfg_KeyFunc config of Some f \<Rightarrow> Some (f m) | None \<Rightarrow> None)" for m
    by (simp add: ams doPublishMessages_message_def Let_def split: option.splits)
  have built: "pm = doPublishMessages_message data ams (pmsg_Metadata pm)"
    if "PublishMessages_run data ams (PublishMessages_init err) evs = Some s"
      and "pm \<in> set (input s @ pending_request (pub_control s))" for err evs s pm
  proof -
    from built_run [OF that(1) built_init] have "requests_built data ams s" .
    with that(2) show ?thesis
      by (cases "pub_control s") (auto simp: requests_built_def)
  qed
  have sent_key: "pmsg_Key pm =
             (case sinkcfg_KeyFunc config of
                Some f \<Rightarrow> Some (f (pmsg_Metadata pm)) | None \<Rightarrow> None)"
    if "PublishMessages_run data ams (PublishMessages_init err) evs = Some s"
      and "pm \<in> set (input s @ pending_request (pub_control s))" for err evs s pm
    using built [OF that] k [of "pmsg_Metadata pm"] by simp
  have h: "Producer_Partitioner conf = NewHashPartitioner \<and>
           (\<forall>m. pmsg_Key (doPublishMessages_message data ams m) = Some (f m)) \<and>
           (\<forall>err evs s. PublishMessages_run data ams (PublishMessages_init err) evs = Some s \<longrightarrow>
               (\<forall>pm \<in> set (input s @ pending_request (pub_control s)).
                  pmsg_Key pm = Some (f (pmsg_Metadata pm))))"
    if kf: "sinkcfg_KeyFunc config = Some f" for f
  proof (intro conjI allI impI ballI)
    show "Producer_Partitioner conf = NewHashPartitioner" using kf p by simp
    show "pmsg_Key (doPublishMessages_message data ams m) = Some (f m)" for m
      using kf k by simp
    show "pmsg_Key pm = Some (f (pmsg_Metadata pm))"
      if "PublishMessages_run data ams (PublishMessages_init err) evs = Some s"
        and "pm \<in> set (input s @ pending_request (pub_control s))" for err evs s pm
      using sent_key [OF that] kf by simp
  qed
  have r: "Producer_Partitioner conf = NewRoundRobinPartitioner \<and>
           (\<forall>m. pmsg_Key (doPublishMessages_message data ams m) = None) \<and>
           (\<forall>err evs s. PublishMessages_run data ams (PublishMessages_init err) evs = Some s \<longrightarrow>
               (\<forall>pm \<in> set (input s @ pending_request (pub_control s)).
                  pmsg_Key pm = None))"
    if kf: "sinkcfg_KeyFunc config = None"
  proof (intro conjI allI impI ballI)
    show "Producer_Partitioner conf = NewRoundRobinPartitioner" using kf p by simp
    show "pmsg_Key (doPublishMessages_message data ams m) = None" for m
      using kf k by simp
    show "pmsg_Key pm = None"
      if "PublishMessages_run data ams (PublishMessages_init err) evs = Some s"
        and "pm \<in> set (input s @ pending_request (pub_control s))" for err evs s pm
      using sent_key [OF that] kf by simp
  qed
  have c: "NewClient (sinkcfg_Brokers config) conf = Inr (sink_client ams)"
    using cl by (simp add: ams)
  have q: "input s @ pending_request (pub_control s)
              = map (doPublishMessages_message data ams) (messages_of evs)"
    if "PublishMessages_run data ams (PublishMessages_init err) evs = Some s"
      and "pub_control s \<noteq> PubPanicked" for err evs s
  proof -
    have "input (PublishMessages_init err) @ pending_request (pub_control (PublishMessages_init err)) = []"
      by (simp add: PublishMessages_init_def split: option.splits)
    with request_run [OF that] show ?thesis by simp
  qed
  have i: "PublishMessages_step data ams s InputSent
              = Some (s\<lparr>input := input s @ [message], pub_control := PubSelect\<rparr>)"
    if "pub_control s = PubAtInput message" "\<not> crashed s" for s message
    using that by (simp add: PublishMessages_step.simps)
  have fb: "fst (buildSaramaProducerConfig NewConfig MaxRequestSize config) = conf"
    using b by simp
  show ?thesis
    unfolding fb using c h r q i by blast
qed

text \<open>
  Claim C9 on two configurations, one with a key function and one without, and on a
  run of each sink that publishes one message.
\<close>

theorem key_function_decides_partitioner_and_key_witness:
  "\<exists>keyed plain s t.
     fst (NewAsyncMessageSink example_NewConfig 104857600 example_NewClient
            (example_sink_config (Some example_KeyFunc))) = Inr keyed \<and>
     fst (NewAsyncMessageSink example_NewConfig 104857600 example_NewClient
            (example_sink_config None)) = Inr plain \<and>
     Producer_Partitioner (fst (buildSaramaProducerConfig example_NewConfig 104857600
            (example_sink_config (Some example_KeyFunc)))) = NewHashPartitioner \<and>
     pmsg_Key (doPublishMessages_message example_Data keyed (CallerMessage 5)) = Some [1] \<and>
     Producer_Partitioner (fst (buildSaramaProducerConfig example_NewConfig 104857600
            (example_sink_config None))) = NewRoundRobinPartitioner \<and>
     pmsg_Key (doPublishMessages_message example_Data plain (CallerMessage 5)) = None \<and>
     PublishMessages_run example_Data keyed (PublishMessages_init None)
       [NewMessage (CallerMessage 5), InputSent] = Some s \<and>
     pub_control s = PubSelect \<and>
     map pmsg_Metadata (input s) = [CallerMessage 5] \<and>
     map pmsg_Key (input s) = [Some [1]] \<and>
     PublishMessages_run example_Data plain (PublishMessages_init None)
       [NewMessage (CallerMessage 5), InputSent] = Some t \<and>
     pub_control t = PubSelect \<and>
     map pmsg_Metadata (input t) = [CallerMessage 5] \<and>
     map pmsg_Key (input t) = [None]"
proof -
  obtain keyed m1 where k: "NewAsyncMessageSink example_NewConfig 104857600 example_NewClient
            (example_sink_config (Some example_KeyFunc)) = (Inr keyed, m1)"
    by (cases "NewAsyncMessageSink example_NewConfig 104857600 example_NewClient
            (example_sink_config (Some example_KeyFunc))")
      (simp add: NewAsyncMessageSink_def example_NewClient_def split_beta)
  obtain plain m2 where p: "NewAsyncMessageSink example_NewConfig 104857600 example_NewClient
            (example_sink_config None) = (Inr plain, m2)"
    by (cases "NewAsyncMessageSink example_NewConfig 104857600 example_NewClient
            (example_sink_config None)")
      (simp add: NewAsyncMessageSink_def example_NewClient_def split_beta)
  have kf: "sinkcfg_KeyFunc (example_sink_config (Some example_KeyFunc)) = Some example_KeyFunc"
    and pf: "sinkcfg_KeyFunc (example_sink_config None) = None"
    by (simp_all add: example_sink_config_def)
  have e: "example_KeyFunc (CallerMessage 5) = [1]"
    by (simp add: example_KeyFunc_def)
  obtain s where rs: "PublishMessages_run example_Data keyed (PublishMessages_init None)
       [NewMessage (CallerMessage 5), InputSent] = Some s"
    and cs: "pub_control s = PubSelect"
    and ms: "map pmsg_Metadata (input s) = [CallerMessage 5]"
    and inp_s: "input s = [doPublishMessages_message example_Data keyed (CallerMessage 5)]"
    by (simp add: PublishMessages_init_def PublishMessages_step.simps crashed_def
        message_Metadata)
  obtain t where rt: "PublishMessages_run example_Data plain (PublishMessages_init None)
       [NewMessage (CallerMessage 5), InputSent] = Some t"
    and ct: "pub_control t = PubSelect"
    and mt: "map pmsg_Metadata (input t) = [CallerMessage 5]"
    and inp_t: "input t = [doPublishMessages_message example_Data plain (CallerMessage 5)]"
    by (simp add: PublishMessages_init_def PublishMessages_step.simps crashed_def
        message_Metadata)
  from key_function_decides_partitioner_and_key [OF k, where data = example_Data]
       key_function_decides_partitioner_and_key [OF p, where data = example_Data]
       k p kf pf e rs cs ms inp_s rt ct mt inp_t
  show ?thesis by simp
qed

section \<open>Properties of the source configuration\<close>

text \<open>
  Claim C10.  \<^verbatim>\<open>buildSaramaConsumerConfig\<close> sets the initial offset to
  \<^verbatim>\<open>OffsetNewest\<close> (that is \<open>-1\<close>) when the configured \<^verbatim>\<open>Offset\<close> is zero, and to
  the configured value itself when it is not zero, \<^verbatim>\<open>OffsetOldest\<close> (that is \<open>-2\<close>)
  included.  The initial offset it sets is therefore never zero.
\<close>

theorem initial_offset_zero_means_newest:
  "(srccfg_Offset ams = 0 \<longrightarrow>
      Consumer_Offsets_Initial (buildSaramaConsumerConfig NewConfig ams) = OffsetNewest) \<and>
   (srccfg_Offset ams \<noteq> 0 \<longrightarrow>
      Consumer_Offsets_Initial (buildSaramaConsumerConfig NewConfig ams) = srccfg_Offset ams) \<and>
   (srccfg_Offset ams = OffsetOldest \<longrightarrow>
      Consumer_Offsets_Initial (buildSaramaConsumerConfig NewConfig ams) = OffsetOldest) \<and>
   Consumer_Offsets_Initial (buildSaramaConsumerConfig NewConfig ams) \<noteq> 0 \<and>
   sint OffsetNewest = - 1 \<and> sint OffsetOldest = - 2"
  by (auto simp: buildSaramaConsumerConfig_def Let_def OffsetNewest_def OffsetOldest_def
      split: option.splits)

text \<open>Claim C10 on the offsets zero, \<^verbatim>\<open>OffsetOldest\<close> and seven.\<close>

theorem initial_offset_zero_means_newest_witness:
  "srccfg_Offset (example_source_config 0) = 0 \<and>
   Consumer_Offsets_Initial
     (buildSaramaConsumerConfig example_cluster_NewConfig (example_source_config 0)) = OffsetNewest \<and>
   srccfg_Offset (example_source_config OffsetOldest) \<noteq> 0 \<and>
   Consumer_Offsets_Initial
     (buildSaramaConsumerConfig example_cluster_NewConfig (example_source_config OffsetOldest))
     = OffsetOldest \<and>
   Consumer_Offsets_Initial
     (buildSaramaConsumerConfig example_cluster_NewConfig (example_source_config 7)) = 7"
proof -
  have z: "srccfg_Offset (example_source_config 0) = 0"
    and o: "srccfg_Offset (example_source_config OffsetOldest) = OffsetOldest"
    and n: "srccfg_Offset (example_source_config 7) \<noteq> 0"
    and n7: "srccfg_Offset (example_source_config 7) = 7"
    and oo: "OffsetOldest \<noteq> 0"
    by (simp_all add: example_source_config_def OffsetOldest_def)
  from initial_offset_zero_means_newest
         [where ams = "example_source_config 0" and NewConfig = example_cluster_NewConfig]
       initial_offset_zero_means_newest
         [where ams = "example_source_config OffsetOldest" and NewConfig = example_cluster_NewConfig]
       initial_offset_zero_means_newest
         [where ams = "example_source_config 7" and NewConfig = example_cluster_NewConfig]
       z o n n7 oo
  show ?thesis by simp
qed

end
